theory Spec2Isabelle
  imports Main "HOL-Library.Sublist"
begin

section \<open>Python strings\<close>

text \<open>
  A Python \<open>str\<close> is modelled as a \<open>string\<close> whose characters are the code points
  U+0000 to U+00FF. This range holds every keyword and every fixed text of the
  modelled programs (their accented letters are U+00E1, U+00E3, U+00E7); the
  case mapping, the white space and the alphanumeric classes below are those of
  Python 3 on this range.
\<close>

definition code_point :: "char \<Rightarrow> nat" where
  "code_point c = of_char c"

text \<open>\<open>str.lower\<close>: on this range, one character to one character.\<close>

definition lower_char :: "char \<Rightarrow> char" where
  "lower_char c =
     (let n = code_point c
      in if (65 \<le> n \<and> n \<le> 90) \<or> (192 \<le> n \<and> n \<le> 214) \<or> (216 \<le> n \<and> n \<le> 222)
         then char_of (n + 32) else c)"

definition py_lower :: "string \<Rightarrow> string" where
  "py_lower s = map lower_char s"

text \<open>\<open>k in text\<close> on strings: \<open>k\<close> occurs as a contiguous block of \<open>text\<close>.\<close>

definition py_in :: "string \<Rightarrow> string \<Rightarrow> bool" where
  "py_in k text = sublist k text"

section \<open>Persona classification (user\_histories/tools.py)\<close>

text \<open>
  \<^verbatim>\<open>
  def _detect_persona(self, rule_text: str) -> str:
      text = rule_text.lower()
      if any(k in text for k in ["admin", "administrador", "moderador", "operador"]):
          return "Administrador"
      if any(k in text for k in ["jogador", "player"]):
          return "Jogador"
      if any(k in text for k in ["sistema", "api", "servi(U+00E7)o", "servico"]):
          return "Sistema"
      if any(k in text for k in ["usu(U+00E1)rio", "usuario", "user"]):
          return "Usu(U+00E1)rio"
      return "Usu(U+00E1)rio"
  \<close>
\<close>

definition detect_persona :: "string \<Rightarrow> string" where
  "detect_persona rule_text =
     (let text = py_lower rule_text
      in if list_ex (\<lambda>k. py_in k text) [''admin'', ''administrador'', ''moderador'', ''operador'']
         then ''Administrador''
         else if list_ex (\<lambda>k. py_in k text) [''jogador'', ''player'']
         then ''Jogador''
         else if list_ex (\<lambda>k. py_in k text)
                   [''sistema'', ''api'', ''servi'' @ [CHR 0xE7] @ ''o'', ''servico'']
         then ''Sistema''
         else if list_ex (\<lambda>k. py_in k text) [''usu'' @ [CHR 0xE1] @ ''rio'', ''usuario'', ''user'']
         then ''Usu'' @ [CHR 0xE1] @ ''rio''
         else ''Usu'' @ [CHR 0xE1] @ ''rio'')"

text \<open>
  The classification as the specification words it, written without the functions
  above. Two characters are the same letter without regard to case when they are equal
  or one is the capital of the other: the capitals of the range are \<open>A\<close> to \<open>Z\<close>
  and U+00C0 to U+00DE without U+00D7, each 32 code points before its small letter.
  A keyword is contained in a text when it matches, letter by letter in this sense, a
  contiguous block of the text. The persona is that of the first of the four ordered
  groups with a keyword contained in the text, and the User persona when there is none.
\<close>

definition is_capital :: "char \<Rightarrow> bool" where
  "is_capital c =
     (let n = of_char c :: nat
      in (65 \<le> n \<and> n \<le> 90) \<or> (192 \<le> n \<and> n \<le> 214) \<or> (216 \<le> n \<and> n \<le> 222))"

definition same_letter :: "char \<Rightarrow> char \<Rightarrow> bool" where
  "same_letter c d =
     (c = d \<or>
      (is_capital c \<and> (of_char d :: nat) = of_char c + 32) \<or>
      (is_capital d \<and> (of_char c :: nat) = of_char d + 32))"

fun starts_with_ci :: "string \<Rightarrow> string \<Rightarrow> bool" where
  "starts_with_ci [] text = True"
| "starts_with_ci (k # ks) [] = False"
| "starts_with_ci (k # ks) (c # cs) = (same_letter k c \<and> starts_with_ci ks cs)"

fun contains_ci :: "string \<Rightarrow> string \<Rightarrow> bool" where
  "contains_ci k [] = (k = [])"
| "contains_ci k (c # cs) = (starts_with_ci k (c # cs) \<or> contains_ci k cs)"

definition persona_groups :: "(string \<times> string list) list" where
  "persona_groups =
     [(''Administrador'', [''admin'', ''administrador'', ''moderador'', ''operador'']),
      (''Jogador'', [''jogador'', ''player'']),
      (''Sistema'', [''sistema'', ''api'', [CHR ''s'', CHR ''e'', CHR ''r'', CHR ''v'', CHR ''i'',
                                            CHR 0xE7, CHR ''o''], ''servico'']),
      ([CHR ''U'', CHR ''s'', CHR ''u'', CHR 0xE1, CHR ''r'', CHR ''i'', CHR ''o''],
       [[CHR ''u'', CHR ''s'', CHR ''u'', CHR 0xE1, CHR ''r'', CHR ''i'', CHR ''o''],
        ''usuario'', ''user''])]"

definition first_matching_group :: "string \<Rightarrow> string" where
  "first_matching_group rule_text =
     (case find (\<lambda>(persona, keywords). list_ex (\<lambda>k. contains_ci k rule_text) keywords)
             persona_groups of
        Some (persona, keywords) \<Rightarrow> persona
      | None \<Rightarrow> [CHR ''U'', CHR ''s'', CHR ''u'', CHR 0xE1, CHR ''r'', CHR ''i'', CHR ''o''])"

text \<open>
  \<open>str.strip\<close> removes the white space of both ends; the white space characters of
  the range are U+0009 to U+000D, U+001C to U+0020, U+0085 and U+00A0.
\<close>

definition is_space :: "char \<Rightarrow> bool" where
  "is_space c =
     (let n = code_point c
      in (9 \<le> n \<and> n \<le> 13) \<or> (28 \<le> n \<and> n \<le> 32) \<or> n = 133 \<or> n = 160)"

definition py_strip :: "string \<Rightarrow> string" where
  "py_strip s = rev (dropWhile is_space (rev (dropWhile is_space s)))"

text \<open>
  A slice \<open>xs[a:b]\<close>: a negative bound counts from the end, and both bounds are
  clipped to the length.
\<close>

definition slice_bound :: "nat \<Rightarrow> int \<Rightarrow> nat" where
  "slice_bound n i = (if i < 0 then nat (max 0 (int n + i)) else min (nat i) n)"

definition py_slice :: "'a list \<Rightarrow> int \<Rightarrow> int \<Rightarrow> 'a list" where
  "py_slice xs a b = drop (slice_bound (length xs) a) (take (slice_bound (length xs) b) xs)"

text \<open>\<open>enumerate(xs, start=i)\<close>.\<close>

fun enumerate_from :: "int \<Rightarrow> 'a list \<Rightarrow> (int \<times> 'a) list" where
  "enumerate_from i [] = []"
| "enumerate_from i (x # xs) = (i, x) # enumerate_from (i + 1) xs"

section \<open>The generic pattern scanner: one file (search\_repo\_patterns.py)\<close>

text \<open>
  The loop of \<open>SearchRepoPatternsTool._run\<close> over the lines of one opened file:
  \<^verbatim>\<open>
  matches_in_file = 0
  for idx, line in enumerate(lines, start=1):
      for creg in compiled:
          if creg.search(line):
              start = max(1, idx - context_lines)
              end = min(len(lines), idx + context_lines)
              snippet = "".join(lines[start - 1 : end]).strip()
              results.append({"path": abs_path, "line_start": start,
                              "line_end": end, "code_snippet": snippet})
              matches_in_file += 1
              if matches_in_file >= max_matches_per_file:
                  break
      if matches_in_file >= max_matches_per_file:
          break
  \<close>
  The regular expression library is not code of the repository: a compiled pattern is
  a value of a type \<open>'rx\<close>, and \<open>finditer\<close> gives the matches of a pattern in a
  string, from left to right. \<open>creg.search(line)\<close> finds a match exactly when
  \<open>finditer\<close> yields one.
\<close>

record evidence =
  path :: string
  line_start :: int
  line_end :: int
  code_snippet :: string

definition re_search :: "('rx \<Rightarrow> string \<Rightarrow> 'm list) \<Rightarrow> 'rx \<Rightarrow> string \<Rightarrow> bool" where
  "re_search finditer creg line = (finditer creg line \<noteq> [])"

definition make_evidence :: "string \<Rightarrow> string list \<Rightarrow> int \<Rightarrow> int \<Rightarrow> evidence" where
  "make_evidence abs_path lines context_lines idx =
     (let start = max 1 (idx - context_lines);
          end = min (int (length lines)) (idx + context_lines);
          snippet = py_strip (concat (py_slice lines (start - 1) end))
      in \<lparr>path = abs_path, line_start = start, line_end = end, code_snippet = snippet\<rparr>)"

text \<open>
  The inner loop over the compiled patterns, on the records found in this file so far
  and \<open>matches_in_file\<close>; it stops after the append that reaches the cap.
\<close>

fun scan_patterns ::
  "('rx \<Rightarrow> string \<Rightarrow> 'm list) \<Rightarrow> evidence \<Rightarrow> int \<Rightarrow> string \<Rightarrow> 'rx list \<Rightarrow>
   evidence list \<times> int \<Rightarrow> evidence list \<times> int" where
  "scan_patterns finditer ev m line [] (found, matches_in_file) = (found, matches_in_file)"
| "scan_patterns finditer ev m line (creg # cregs) (found, matches_in_file) =
     (if re_search finditer creg line
      then (if matches_in_file + 1 \<ge> m then (found @ [ev], matches_in_file + 1)
            else scan_patterns finditer ev m line cregs (found @ [ev], matches_in_file + 1))
      else scan_patterns finditer ev m line cregs (found, matches_in_file))"

text \<open>The outer loop over the numbered lines, with its own test of the cap.\<close>

fun scan_lines ::
  "('rx \<Rightarrow> string \<Rightarrow> 'm list) \<Rightarrow> (int \<Rightarrow> evidence) \<Rightarrow> int \<Rightarrow> 'rx list \<Rightarrow> (int \<times> string) list \<Rightarrow>
   evidence list \<times> int \<Rightarrow> evidence list \<times> int" where
  "scan_lines finditer mk m compiled [] st = st"
| "scan_lines finditer mk m compiled ((idx, line) # rest) st =
     (let st' = scan_patterns finditer (mk idx) m line compiled st
      in if snd st' \<ge> m then st' else scan_lines finditer mk m compiled rest st')"

text \<open>
  The records one file adds to \<open>results\<close>: the loop started with
  \<open>matches_in_file = 0\<close>.
\<close>

definition scan_file ::
  "('rx \<Rightarrow> string \<Rightarrow> 'm list) \<Rightarrow> string \<Rightarrow> string list \<Rightarrow> 'rx list \<Rightarrow> int \<Rightarrow> int \<Rightarrow> evidence list" where
  "scan_file finditer abs_path lines compiled max_matches_per_file context_lines =
     fst (scan_lines finditer (make_evidence abs_path lines context_lines) max_matches_per_file
            compiled (enumerate_from 1 lines) ([], 0))"

text \<open>
  For the specification of the loop: the records of one line, one for each pattern of
  the list that the line matches.
\<close>

definition line_hits :: "('rx \<Rightarrow> string \<Rightarrow> 'm list) \<Rightarrow> (int \<Rightarrow> evidence) \<Rightarrow> 'rx list \<Rightarrow> int \<times> string \<Rightarrow> evidence list" where
  "line_hits finditer mk compiled = (\<lambda>(idx, line).
     concat (map (\<lambda>creg. if re_search finditer creg line then [mk idx] else []) compiled))"

section \<open>A regular expression library for literal patterns\<close>

text \<open>
  A match object, as far as the scanners read it: \<open>m.group(0)\<close> and
  \<open>m.groups()\<close> (a group that took no part in the match is \<open>None\<close>).
\<close>

record re_match =
  group0 :: string
  groups :: "string option list"

text \<open>
  For a pattern without special characters \<open>finditer\<close> yields the occurrences of
  the pattern text from left to right, none overlapping another. This instance of the
  library evaluates the scanners on concrete files.
\<close>

fun literal_matches :: "string \<Rightarrow> nat \<Rightarrow> string \<Rightarrow> re_match list" where
  "literal_matches p skip [] =
     (if p = [] \<and> skip = 0 then [\<lparr>group0 = p, groups = []\<rparr>] else [])"
| "literal_matches p skip (c # cs) =
     (if 0 < skip then literal_matches p (skip - 1) cs
      else if prefix p (c # cs)
           then \<lparr>group0 = p, groups = []\<rparr> # literal_matches p (length p - 1) cs
           else literal_matches p 0 cs)"

definition literal_finditer :: "string \<Rightarrow> string \<Rightarrow> re_match list" where
  "literal_finditer p line = literal_matches p 0 line"

section \<open>The endpoint scanner: one file (endpoint\_scanner.py)\<close>

text \<open>
  \<^verbatim>\<open>
  for idx, line in enumerate(lines, start=1):
      for key, regex in patterns.items():
          for m in regex.finditer(line):
              url = m.group(1) if m.groups() else m.group(0)
              results.append({"path": abs_path, "line_numbers": f"L{idx}-{idx}",
                              "category": key, "value": url,
                              "code_snippet": line.strip()})
  \<close>
  The table \<open>patterns\<close> of compiled expressions is a parameter, in the order of the
  dictionary.
\<close>

fun string_of_nat :: "nat \<Rightarrow> string" where
  "string_of_nat n =
     (if n < 10 then [''0123456789'' ! n]
      else string_of_nat (n div 10) @ [''0123456789'' ! (n mod 10)])"

declare string_of_nat.simps [simp del]

definition py_str_int :: "int \<Rightarrow> string" where
  "py_str_int i = (if i < 0 then ''-'' @ string_of_nat (nat (- i)) else string_of_nat (nat i))"

record endpoint_evidence =
  ep_path :: string
  ep_line_numbers :: string
  ep_category :: string
  ep_value :: "string option"
  ep_code_snippet :: string

definition endpoint_record :: "string \<Rightarrow> string \<Rightarrow> int \<Rightarrow> string \<Rightarrow> re_match \<Rightarrow> endpoint_evidence" where
  "endpoint_record abs_path key idx line m =
     (let url = (if groups m \<noteq> [] then hd (groups m) else Some (group0 m))
      in \<lparr>ep_path = abs_path,
          ep_line_numbers = ''L'' @ py_str_int idx @ ''-'' @ py_str_int idx,
          ep_category = key, ep_value = url, ep_code_snippet = py_strip line\<rparr>)"

fun endpoint_scan_lines ::
  "('rx \<Rightarrow> string \<Rightarrow> re_match list) \<Rightarrow> string \<Rightarrow> (string \<times> 'rx) list \<Rightarrow> (int \<times> string) list \<Rightarrow>
   endpoint_evidence list \<Rightarrow> endpoint_evidence list" where
  "endpoint_scan_lines finditer abs_path table [] found = found"
| "endpoint_scan_lines finditer abs_path table ((idx, line) # rest) found =
     endpoint_scan_lines finditer abs_path table rest
       (fold (\<lambda>(key, regex) acc.
                fold (\<lambda>m acc'. acc' @ [endpoint_record abs_path key idx line m]) (finditer regex line) acc)
             table found)"

definition endpoint_scan_file ::
  "('rx \<Rightarrow> string \<Rightarrow> re_match list) \<Rightarrow> string \<Rightarrow> (string \<times> 'rx) list \<Rightarrow> string list \<Rightarrow> endpoint_evidence list" where
  "endpoint_scan_file finditer abs_path table lines =
     endpoint_scan_lines finditer abs_path table (enumerate_from 1 lines) []"

section \<open>Glob matching and the directory tree\<close>

text \<open>
  \<open>fnmatch.fnmatch(name, pat)\<close> of the Python library, on POSIX, for the patterns made
  of \<open>*\<close> (any run of characters, the separator \<open>/\<close> included), \<open>?\<close> (any one
  character) and literal characters: these are all the globs the repository defines.
  A run of stars matches as one star does. A pattern with a bracket expression is not
  covered by this definition; the scanners below take the matcher as a parameter
  \<open>fm\<close>, and what is proved of them for every matcher holds for the library's.
\<close>

fun fnmatch :: "string \<Rightarrow> string \<Rightarrow> bool" where
  "fnmatch [] [] = True"
| "fnmatch (c # cs) [] = False"
| "fnmatch [] (p # ps) = (p = CHR ''*'' \<and> fnmatch [] ps)"
| "fnmatch (c # cs) (p # ps) =
     (if p = CHR ''*'' then fnmatch (c # cs) ps \<or> fnmatch cs (p # ps)
      else (p = CHR ''?'' \<or> p = c) \<and> fnmatch cs ps)"

text \<open>\<open>s.replace("\\", "/")\<close>.\<close>

definition replace_backslash :: "string \<Rightarrow> string" where
  "replace_backslash s = map (\<lambda>c. if c = CHR 0x5C then CHR ''/'' else c) s"

text \<open>
  A directory as \<open>os.walk\<close> reads it: the names of its subdirectories and of its
  other entries, each list in the order of the listing. A file holds its lines as
  \<open>readlines\<close> returns them, or \<open>None\<close> when opening or reading it raises.
  A relative directory \<open>Path(dirpath).relative_to(root)\<close> is the list of its
  components, and \<open>str(rel_dir / name)\<close> joins them with the separator.
\<close>

datatype dir = Dir (subdirs: "(string \<times> dir) list") (filenames: "(string \<times> string list option) list")

definition child_path :: "string list \<Rightarrow> string \<Rightarrow> string" where
  "child_path rel_dir name = concat (map (\<lambda>d. d @ ''/'') rel_dir) @ name"

text \<open>
  Paths of \<open>pathlib\<close> on POSIX. \<open>Path(s)\<close> keeps a root, which is \<open>//\<close> when
  \<open>s\<close> starts with exactly two separators, \<open>/\<close> when it starts with one or with
  three and more, and nothing otherwise, and the components of \<open>s\<close> between
  separators without the empty ones and the single dots. \<open>p / s\<close> is \<open>Path(s)\<close>
  when \<open>s\<close> has a root, and otherwise \<open>p\<close> with the components of \<open>s\<close> added.
  \<open>str(p)\<close> is the root followed by the components joined with the separator, and a
  single dot when there is neither.
\<close>

fun py_join :: "string \<Rightarrow> string list \<Rightarrow> string" where
  "py_join sep [] = []"
| "py_join sep [x] = x"
| "py_join sep (x # y # ys) = x @ sep @ py_join sep (y # ys)"

fun split_sep :: "string \<Rightarrow> string list" where
  "split_sep [] = [[]]"
| "split_sep (c # cs) =
     (if c = CHR ''/'' then [] # split_sep cs
      else (case split_sep cs of [] \<Rightarrow> [[c]] | p # ps \<Rightarrow> (c # p) # ps))"

definition path_root :: "string \<Rightarrow> string" where
  "path_root s =
     (let n = length (takeWhile (\<lambda>c. c = CHR ''/'') s)
      in if n = 0 then [] else if n = 2 then ''//'' else ''/'')"

definition path_parts :: "string \<Rightarrow> string list" where
  "path_parts s = filter (\<lambda>x. x \<noteq> [] \<and> x \<noteq> ''.'') (split_sep s)"

definition Path :: "string \<Rightarrow> string \<times> string list" where
  "Path s = (path_root s, path_parts s)"

definition path_div :: "string \<times> string list \<Rightarrow> string \<Rightarrow> string \<times> string list" where
  "path_div p s = (if path_root s \<noteq> [] then Path s else (fst p, snd p @ path_parts s))"

definition path_str :: "string \<times> string list \<Rightarrow> string" where
  "path_str p = (if fst p = [] \<and> snd p = [] then ''.'' else fst p @ py_join ''/'' (snd p))"

text \<open>\<open>str(root / rel)\<close> with \<open>root = Path(repo_root)\<close>.\<close>

definition abs_path_of :: "string \<Rightarrow> string \<Rightarrow> string" where
  "abs_path_of root rel = path_str (path_div (Path root) rel)"

text \<open>
  The pruning at the head of each scanner's loop body, and \<open>os.walk\<close> top-down under
  it: a directory is yielded with its file names, then the subdirectories left in
  \<open>dirnames\<close> are walked in order.
  \<^verbatim>\<open>
  for dirpath, dirnames, filenames in os.walk(root):
      rel_dir = Path(dirpath).relative_to(root)
      pruned_dirnames = []
      for d in dirnames:
          full = str(rel_dir / d).replace("\\", "/")
          if any(fnmatch.fnmatch(full + "/", pattern) for pattern in exclude_globs):
              continue
          pruned_dirnames.append(d)
      dirnames[:] = pruned_dirnames
  \<close>
\<close>

definition dir_pruned :: "(string \<Rightarrow> string \<Rightarrow> bool) \<Rightarrow> string list \<Rightarrow> string list \<Rightarrow> string \<Rightarrow> bool" where
  "dir_pruned fm exclude_globs rel_dir d =
     (let full = replace_backslash (child_path rel_dir d)
      in list_ex (\<lambda>pattern. fm (full @ ''/'') pattern) exclude_globs)"

fun walk ::
  "(string \<Rightarrow> string \<Rightarrow> bool) \<Rightarrow> string list \<Rightarrow> string list \<Rightarrow> dir \<Rightarrow>
   (string list \<times> (string \<times> string list option) list) list" where
  "walk fm exclude_globs rel_dir (Dir dirnames fnames) =
     (rel_dir, fnames) #
     concat (map (\<lambda>(d, sub). if dir_pruned fm exclude_globs rel_dir d then []
                              else walk fm exclude_globs (rel_dir @ [d]) sub) dirnames)"

text \<open>A root that does not exist or is not a directory yields nothing.\<close>

definition walk_root ::
  "(string \<Rightarrow> string \<Rightarrow> bool) \<Rightarrow> string list \<Rightarrow> dir option \<Rightarrow>
   (string list \<times> (string \<times> string list option) list) list" where
  "walk_root fm exclude_globs tree =
     (case tree of None \<Rightarrow> [] | Some t \<Rightarrow> walk fm exclude_globs [] t)"

section \<open>The generic pattern scanner: the whole run (search\_repo\_patterns.py)\<close>

text \<open>
  \<^verbatim>\<open>
  compiled = [re.compile(p) for p in patterns if p]
  if not compiled:
      return json.dumps({"matches": []})
  root = Path(repo_root)
  results: List[dict] = []
  file_count = 0
  for dirpath, dirnames, filenames in os.walk(root):
      ... (the pruning above)
      for f in filenames:
          rel = str((rel_dir / f)).replace("\\", "/")
          if any(fnmatch.fnmatch(rel, pattern) for pattern in exclude_globs):
              continue
          if include_globs and not any(
              fnmatch.fnmatch(rel, pattern) for pattern in include_globs):
              continue
          abs_path = str(root / rel)
          file_count += 1
          if file_count > max_files:
              break
          try:
              with open(abs_path, "r", encoding="utf-8", errors="ignore") as fh:
                  lines = fh.readlines()
          except Exception:
              continue
          ... (the loop over the lines)
      if file_count > max_files:
          break
  return json.dumps({"matches": results})
  \<close>
  The state of the loop is \<open>file_count\<close> and \<open>results\<close>, and a log \<open>opened\<close>
  of the paths on which \<open>open\<close> was called, in order. The file opened at
  \<open>abs_path\<close> is the file the walk listed (no file name holds a backslash).
\<close>

record search_args =
  repo_root :: string
  patterns :: "string list"
  include_globs :: "string list option"
  exclude_globs :: "string list option"
  max_matches_per_file :: int
  context_lines :: int
  max_files :: int

record scan_state =
  file_count :: int
  results :: "evidence list"
  opened :: "string list"

text \<open>The exceptions a run can leave with.\<close>

datatype py_error = ReError string | AttributeError | TypeError | OSError | ValueError

definition default_include_globs :: "string list" where
  "default_include_globs =
     [''**/*.py'', ''**/*.ts'', ''**/*.tsx'', ''**/*.js'', ''**/*.jsx'', ''**/*.go'',
      ''**/*.java'', ''**/*.cs'', ''**/*.rb'', ''**/*.php'', ''**/*.kt'', ''**/*.scala'']"

definition default_exclude_globs :: "string list" where
  "default_exclude_globs =
     [''**/.git/**'', ''**/node_modules/**'', ''**/.venv/**'', ''**/dist/**'',
      ''**/build/**'', ''**/.next/**'', ''**/coverage/**'']"

text \<open>\<open>xs or default\<close>: the default replaces \<open>None\<close> and the empty list.\<close>

definition or_default :: "'a list option \<Rightarrow> 'a list \<Rightarrow> 'a list" where
  "or_default xs dflt = (case xs of None \<Rightarrow> dflt | Some ys \<Rightarrow> if ys = [] then dflt else ys)"

definition file_selected ::
  "(string \<Rightarrow> string \<Rightarrow> bool) \<Rightarrow> string list \<Rightarrow> string list \<Rightarrow> string \<Rightarrow> bool" where
  "file_selected fm incl excl rel =
     (\<not> list_ex (\<lambda>pattern. fm rel pattern) excl \<and>
      \<not> (incl \<noteq> [] \<and> \<not> list_ex (\<lambda>pattern. fm rel pattern) incl))"

fun scan_filenames ::
  "(string \<Rightarrow> string \<Rightarrow> bool) \<Rightarrow> ('rx \<Rightarrow> string \<Rightarrow> 'm list) \<Rightarrow> search_args \<Rightarrow>
   string list \<Rightarrow> string list \<Rightarrow> 'rx list \<Rightarrow> string list \<Rightarrow>
   (string \<times> string list option) list \<Rightarrow> scan_state \<Rightarrow> scan_state" where
  "scan_filenames fm fi args incl excl compiled rel_dir [] st = st"
| "scan_filenames fm fi args incl excl compiled rel_dir ((f, content) # rest) st =
     (let rel = replace_backslash (child_path rel_dir f)
      in if list_ex (\<lambda>pattern. fm rel pattern) excl
         then scan_filenames fm fi args incl excl compiled rel_dir rest st
         else if incl \<noteq> [] \<and> \<not> list_ex (\<lambda>pattern. fm rel pattern) incl
         then scan_filenames fm fi args incl excl compiled rel_dir rest st
         else
           (let abs_path = abs_path_of (repo_root args) rel;
                st1 = st\<lparr>file_count := file_count st + 1\<rparr>
            in if file_count st1 > max_files args then st1
               else
                 (let st2 = st1\<lparr>opened := opened st1 @ [abs_path]\<rparr>
                  in case content of
                       None \<Rightarrow> scan_filenames fm fi args incl excl compiled rel_dir rest st2
                     | Some lines \<Rightarrow>
                         scan_filenames fm fi args incl excl compiled rel_dir rest
                           (st2\<lparr>results := results st2 @
                               scan_file fi abs_path lines compiled
                                 (max_matches_per_file args) (context_lines args)\<rparr>))))"

fun scan_dirs ::
  "(string \<Rightarrow> string \<Rightarrow> bool) \<Rightarrow> ('rx \<Rightarrow> string \<Rightarrow> 'm list) \<Rightarrow> search_args \<Rightarrow>
   string list \<Rightarrow> string list \<Rightarrow> 'rx list \<Rightarrow>
   (string list \<times> (string \<times> string list option) list) list \<Rightarrow> scan_state \<Rightarrow> scan_state" where
  "scan_dirs fm fi args incl excl compiled [] st = st"
| "scan_dirs fm fi args incl excl compiled ((rel_dir, fnames) # rest) st =
     (let st' = scan_filenames fm fi args incl excl compiled rel_dir fnames st
      in if file_count st' > max_files args then st'
         else scan_dirs fm fi args incl excl compiled rest st')"

text \<open>
  \<open>re.compile\<close> is a parameter: \<open>None\<close> when it raises \<open>re.error\<close>, which
  leaves the comprehension and \<open>_run\<close> at the first such pattern.
\<close>

fun compile_patterns :: "(string \<Rightarrow> 'rx option) \<Rightarrow> string list \<Rightarrow> py_error + 'rx list" where
  "compile_patterns re_compile [] = Inr []"
| "compile_patterns re_compile (p # ps) =
     (if p = [] then compile_patterns re_compile ps
      else case re_compile p of
             None \<Rightarrow> Inl (ReError p)
           | Some creg \<Rightarrow>
               (case compile_patterns re_compile ps of
                  Inl e \<Rightarrow> Inl e
                | Inr cregs \<Rightarrow> Inr (creg # cregs)))"

definition run_scan ::
  "(string \<Rightarrow> 'rx option) \<Rightarrow> ('rx \<Rightarrow> string \<Rightarrow> 'm list) \<Rightarrow> (string \<Rightarrow> string \<Rightarrow> bool) \<Rightarrow>
   dir option \<Rightarrow> search_args \<Rightarrow> py_error + scan_state" where
  "run_scan re_compile fi fm tree args =
     (let incl = or_default (include_globs args) default_include_globs;
          excl = or_default (exclude_globs args) default_exclude_globs
      in case compile_patterns re_compile (patterns args) of
           Inl e \<Rightarrow> Inl e
         | Inr compiled \<Rightarrow>
             if compiled = [] then Inr \<lparr>file_count = 0, results = [], opened = []\<rparr>
             else Inr (scan_dirs fm fi args incl excl compiled (walk_root fm excl tree)
                         \<lparr>file_count = 0, results = [], opened = []\<rparr>))"

text \<open>The value of \<open>_run\<close>: the list under the key \<open>matches\<close>, or the error raised.\<close>

definition search_repo_patterns ::
  "(string \<Rightarrow> 'rx option) \<Rightarrow> ('rx \<Rightarrow> string \<Rightarrow> 'm list) \<Rightarrow> (string \<Rightarrow> string \<Rightarrow> bool) \<Rightarrow>
   dir option \<Rightarrow> search_args \<Rightarrow> py_error + evidence list" where
  "search_repo_patterns re_compile fi fm tree args =
     (case run_scan re_compile fi fm tree args of Inl e \<Rightarrow> Inl e | Inr st \<Rightarrow> Inr (results st))"

text \<open>
  For the specification of the run: the files that pass the two filters, in the order
  of the walk, each with its absolute path; and what a file adds to the results once it
  is opened.
\<close>

definition dir_candidates ::
  "(string \<Rightarrow> string \<Rightarrow> bool) \<Rightarrow> string \<Rightarrow> string list \<Rightarrow> string list \<Rightarrow>
   string list \<times> (string \<times> string list option) list \<Rightarrow> (string \<times> string list option) list" where
  "dir_candidates fm root incl excl = (\<lambda>(rel_dir, fnames).
     map (\<lambda>(f, content). (abs_path_of root (replace_backslash (child_path rel_dir f)), content))
       (filter (\<lambda>(f, content). file_selected fm incl excl (replace_backslash (child_path rel_dir f)))
          fnames))"

definition candidates ::
  "(string \<Rightarrow> string \<Rightarrow> bool) \<Rightarrow> string \<Rightarrow> string list \<Rightarrow> string list \<Rightarrow> dir option \<Rightarrow>
   (string \<times> string list option) list" where
  "candidates fm root incl excl tree =
     concat (map (dir_candidates fm root incl excl) (walk_root fm excl tree))"

definition file_records ::
  "('rx \<Rightarrow> string \<Rightarrow> 'm list) \<Rightarrow> 'rx list \<Rightarrow> int \<Rightarrow> int \<Rightarrow> string \<times> string list option \<Rightarrow> evidence list" where
  "file_records fi compiled m c = (\<lambda>(abs_path, content).
     case content of None \<Rightarrow> [] | Some lines \<Rightarrow> scan_file fi abs_path lines compiled m c)"

section \<open>The file lister (repo\_mcp\_tools.py)\<close>

text \<open>
  \<^verbatim>\<open>
  def _scan_local_fs(self, repo_root, include_globs, exclude_globs):
      root = Path(repo_root)
      if not root.exists():
          return []
      matched: List[str] = []
      for dirpath, dirnames, filenames in os.walk(root):
          ... (the pruning above)
          for f in filenames:
              rel = str((rel_dir / f)).replace("\\", "/")
              if any(fnmatch.fnmatch(rel, pattern) for pattern in exclude_globs):
                  continue
              if include_globs and not any(
                  fnmatch.fnmatch(rel, pattern) for pattern in include_globs):
                  continue
              matched.append(str(root / rel))
      return matched
  \<close>
\<close>

fun list_filenames ::
  "(string \<Rightarrow> string \<Rightarrow> bool) \<Rightarrow> string \<Rightarrow> string list \<Rightarrow> string list \<Rightarrow> string list \<Rightarrow>
   (string \<times> string list option) list \<Rightarrow> string list \<Rightarrow> string list" where
  "list_filenames fm root incl excl rel_dir [] matched = matched"
| "list_filenames fm root incl excl rel_dir ((f, content) # rest) matched =
     (let rel = replace_backslash (child_path rel_dir f)
      in if list_ex (\<lambda>pattern. fm rel pattern) excl
         then list_filenames fm root incl excl rel_dir rest matched
         else if incl \<noteq> [] \<and> \<not> list_ex (\<lambda>pattern. fm rel pattern) incl
         then list_filenames fm root incl excl rel_dir rest matched
         else list_filenames fm root incl excl rel_dir rest (matched @ [abs_path_of root rel]))"

definition scan_local_fs ::
  "(string \<Rightarrow> string \<Rightarrow> bool) \<Rightarrow> string \<Rightarrow> dir option \<Rightarrow> string list \<Rightarrow> string list \<Rightarrow> string list" where
  "scan_local_fs fm root tree incl excl =
     (case tree of
        None \<Rightarrow> []
      | Some t \<Rightarrow>
          fold (\<lambda>(rel_dir, fnames) matched. list_filenames fm root incl excl rel_dir fnames matched)
            (walk fm excl [] t) [])"

text \<open>
  The list \<open>files\<close> of \<open>ListRepositoryFilesTool._run\<close>, from which the tool builds
  its answer (the list itself, its length and the count of each extension):
  \<^verbatim>\<open>
  include_globs = include_globs or ["**/*"]
  exclude_globs = exclude_globs or ["**/.git/**", "**/node_modules/**", "**/.venv/**"]
  files: List[str] = self._scan_local_fs(repo_root, include_globs, exclude_globs)
  if len(files) > max_files:
      files = files[:max_files]
  \<close>
\<close>

definition list_repository_files ::
  "(string \<Rightarrow> string \<Rightarrow> bool) \<Rightarrow> string \<Rightarrow> dir option \<Rightarrow> string list option \<Rightarrow>
   string list option \<Rightarrow> int \<Rightarrow> string list" where
  "list_repository_files fm root tree include_arg exclude_arg max_files_arg =
     (let incl = or_default include_arg [''**/*''];
          excl = or_default exclude_arg [''**/.git/**'', ''**/node_modules/**'', ''**/.venv/**''];
          files = scan_local_fs fm root tree incl excl
      in if int (length files) > max_files_arg then py_slice files 0 max_files_arg else files)"

section \<open>JSON values\<close>

text \<open>
  A value as \<open>json.loads\<close> returns it: \<open>None\<close>, a truth value, an integer, a
  string, a list, or a dictionary in the order of its keys (each key once). Numbers
  with a fraction are not represented.
\<close>

datatype json =
  JNull | JBool bool | JInt int | JStr string | JArr "json list" | JObj "(string \<times> json) list"





section \<open>The lenient search tool (robust\_search\_repo\_patterns.py)\<close>

text \<open>
  \<^verbatim>\<open>
  def _try_parse(self, payload: str) -> Optional[Dict[str, Any]]:
      try:
          data = json.loads(payload)
      except Exception:
          return None
      if isinstance(data, dict) and "repo_root" in data and "patterns" in data:
          return data
      if isinstance(data, list):
          for item in data:
              if isinstance(item, dict) and "repo_root" in item and "patterns" in item:
                  return item
      return None
  \<close>
  \<open>json.loads\<close> is library code: its outcome on the payload, \<open>None\<close> when it
  raises, is an input of the model beside the payload.
\<close>

definition is_config :: "json \<Rightarrow> bool" where
  "is_config v =
     (case v of
        JObj kvs \<Rightarrow> map_of kvs ''repo_root'' \<noteq> None \<and> map_of kvs ''patterns'' \<noteq> None
      | _ \<Rightarrow> False)"

definition try_parse :: "json option \<Rightarrow> json option" where
  "try_parse loaded =
     (case loaded of
        None \<Rightarrow> None
      | Some data \<Rightarrow>
          if is_config data then Some data
          else (case data of JArr items \<Rightarrow> find is_config items | _ \<Rightarrow> None))"

text \<open>
  \<^verbatim>\<open>
  def _heuristic_extract(self, payload: str) -> Dict[str, Any]:
      path_match = re.search(r"[A-Za-z]:\\\\[^\"\n]+|/[^\"\n\s]+", payload)
      repo_root = path_match.group(0) if path_match else "."
      patterns = [
          r"export default",
          r"export const",
          r"export function",
          r"class\\s+\\w+",
          r"def\\s+\\w+\\(",
      ]
      return {"repo_root": repo_root, "patterns": patterns}
  \<close>
  The search for a path token is written out: at the leftmost position where one of
  them matches, either a letter, a colon, two backslashes and the longest run of
  characters other than the double quote and the line feed, or a slash and the longest
  run of characters other than the double quote, the line feed and white space; each
  run has at least one character. The five patterns are raw strings, so each \<open>\\\\\<close>
  of the source is two backslash characters of the pattern.
\<close>

definition backslash :: char where
  "backslash = CHR 0x5C"

definition is_ascii_letter :: "char \<Rightarrow> bool" where
  "is_ascii_letter c =
     (let n = code_point c in (65 \<le> n \<and> n \<le> 90) \<or> (97 \<le> n \<and> n \<le> 122))"

definition drive_path_at :: "string \<Rightarrow> string option" where
  "drive_path_at s =
     (case s of
        c # d # b1 # b2 # rest \<Rightarrow>
          (let run = takeWhile (\<lambda>x. x \<noteq> CHR 0x22 \<and> x \<noteq> CHR 0x0A) rest
           in if is_ascii_letter c \<and> d = CHR '':'' \<and> b1 = backslash \<and> b2 = backslash \<and> run \<noteq> []
              then Some (c # d # b1 # b2 # run) else None)
      | _ \<Rightarrow> None)"

definition slash_path_at :: "string \<Rightarrow> string option" where
  "slash_path_at s =
     (case s of
        c # rest \<Rightarrow>
          (let run = takeWhile (\<lambda>x. x \<noteq> CHR 0x22 \<and> x \<noteq> CHR 0x0A \<and> \<not> is_space x) rest
           in if c = CHR ''/'' \<and> run \<noteq> [] then Some (c # run) else None)
      | [] \<Rightarrow> None)"

fun search_path_token :: "string \<Rightarrow> string option" where
  "search_path_token [] = None"
| "search_path_token (c # cs) =
     (case drive_path_at (c # cs) of
        Some t \<Rightarrow> Some t
      | None \<Rightarrow>
          (case slash_path_at (c # cs) of
             Some t \<Rightarrow> Some t
           | None \<Rightarrow> search_path_token cs))"

definition heuristic_patterns :: "string list" where
  "heuristic_patterns =
     [''export default'',
      ''export const'',
      ''export function'',
      ''class'' @ [backslash, backslash] @ ''s+'' @ [backslash, backslash] @ ''w+'',
      ''def'' @ [backslash, backslash] @ ''s+'' @ [backslash, backslash] @ ''w+''
        @ [backslash, backslash] @ ''('']"

definition heuristic_extract :: "string \<Rightarrow> json" where
  "heuristic_extract payload =
     (let repo_root = (case search_path_token payload of Some t \<Rightarrow> t | None \<Rightarrow> ''.'')
      in JObj [(''repo_root'', JStr repo_root), (''patterns'', JArr (map JStr heuristic_patterns))])"

text \<open>
  \<^verbatim>\<open>
  def _run(self, payload: str) -> str:
      cfg = self._try_parse(payload)
      if cfg is None:
          cfg = self._heuristic_extract(payload)
      repo_root = cfg.get("repo_root", ".")
      patterns = cfg.get("patterns", [])
      include_globs = cfg.get("include_globs")
      exclude_globs = cfg.get("exclude_globs")
      max_matches_per_file = cfg.get("max_matches_per_file", 5)
      context_lines = cfg.get("context_lines", 2)
      max_files = cfg.get("max_files", 2000)
      inner = SearchRepoPatternsTool()
      return inner._run(repo_root=repo_root, patterns=patterns, ...)
  \<close>
  The values of the configuration reach the strict tool's \<open>_run\<close> unvalidated. The
  model follows the call when each value has the type the strict tool's schema gives
  it (a string, lists of strings, integers; \<open>None\<close> or nothing for the two glob
  lists); for any other configuration \<open>args_of_config\<close> is \<open>None\<close> and the run is
  outside the model.
\<close>

definition str_list :: "json \<Rightarrow> string list option" where
  "str_list v =
     (case v of
        JArr xs \<Rightarrow>
          if list_all (\<lambda>x. case x of JStr _ \<Rightarrow> True | _ \<Rightarrow> False) xs
          then Some (map (\<lambda>x. case x of JStr s \<Rightarrow> s | _ \<Rightarrow> []) xs) else None
      | _ \<Rightarrow> None)"

definition opt_str_list :: "json option \<Rightarrow> string list option option" where
  "opt_str_list v =
     (case v of
        None \<Rightarrow> Some None
      | Some JNull \<Rightarrow> Some None
      | Some w \<Rightarrow> (case str_list w of Some xs \<Rightarrow> Some (Some xs) | None \<Rightarrow> None))"

definition int_or :: "json option \<Rightarrow> int \<Rightarrow> int option" where
  "int_or v dflt = (case v of None \<Rightarrow> Some dflt | Some (JInt n) \<Rightarrow> Some n | Some _ \<Rightarrow> None)"

definition args_of_config :: "json \<Rightarrow> search_args option" where
  "args_of_config cfg =
     (case cfg of
        JObj kvs \<Rightarrow>
          (case (map_of kvs ''repo_root'', map_of kvs ''patterns'',
                 opt_str_list (map_of kvs ''include_globs''),
                 opt_str_list (map_of kvs ''exclude_globs''),
                 int_or (map_of kvs ''max_matches_per_file'') 5,
                 int_or (map_of kvs ''context_lines'') 2,
                 int_or (map_of kvs ''max_files'') 2000) of
             (Some (JStr root), Some ps, Some incl, Some excl, Some m, Some c, Some k) \<Rightarrow>
               (case str_list ps of
                  Some pats \<Rightarrow>
                    Some \<lparr>repo_root = root, patterns = pats, include_globs = incl,
                          exclude_globs = excl, max_matches_per_file = m,
                          context_lines = c, max_files = k\<rparr>
                | None \<Rightarrow> None)
           | _ \<Rightarrow> None)
      | _ \<Rightarrow> None)"

text \<open>
  The file system is the function giving the directory tree at a path. The outcome is
  \<open>None\<close> outside the model, else the strict tool's.
\<close>

definition robust_search_repo_patterns ::
  "(string \<Rightarrow> 'rx option) \<Rightarrow> ('rx \<Rightarrow> string \<Rightarrow> 'm list) \<Rightarrow> (string \<Rightarrow> string \<Rightarrow> bool) \<Rightarrow>
   (string \<Rightarrow> dir option) \<Rightarrow> string \<Rightarrow> json option \<Rightarrow> (py_error + evidence list) option" where
  "robust_search_repo_patterns re_compile fi fm trees payload loaded =
     (let cfg = (case try_parse loaded of None \<Rightarrow> heuristic_extract payload | Some c \<Rightarrow> c)
      in case args_of_config cfg of
           None \<Rightarrow> None
         | Some args \<Rightarrow> Some (search_repo_patterns re_compile fi fm (trees (repo_root args)) args))"

text \<open>
  \<open>re.compile\<close> as far as the closing of a pattern goes: the library rejects a
  pattern that ends inside an escape, inside a character set or inside a group, and a
  closing parenthesis without its opening one. This check stands for the compiler where
  a theorem needs a pattern rejected; a compiled pattern is then the pattern's text.
\<close>

datatype re_mode = Top | TopEscape | SetOpen | SetFirst | InSet | SetEscape

fun re_closed :: "re_mode \<Rightarrow> nat \<Rightarrow> string \<Rightarrow> bool" where
  "re_closed mode depth [] = (mode = Top \<and> depth = 0)"
| "re_closed mode depth (c # cs) =
     (case mode of
        TopEscape \<Rightarrow> re_closed Top depth cs
      | SetEscape \<Rightarrow> re_closed InSet depth cs
      | Top \<Rightarrow>
          if c = backslash then re_closed TopEscape depth cs
          else if c = CHR ''['' then re_closed SetOpen depth cs
          else if c = CHR ''('' then re_closed Top (Suc depth) cs
          else if c = CHR '')'' then 0 < depth \<and> re_closed Top (depth - 1) cs
          else re_closed Top depth cs
      | SetOpen \<Rightarrow>
          if c = CHR ''^'' then re_closed SetFirst depth cs
          else if c = backslash then re_closed SetEscape depth cs
          else re_closed InSet depth cs
      | SetFirst \<Rightarrow>
          if c = backslash then re_closed SetEscape depth cs else re_closed InSet depth cs
      | InSet \<Rightarrow>
          if c = CHR '']'' then re_closed Top depth cs
          else if c = backslash then re_closed SetEscape depth cs
          else re_closed InSet depth cs)"

definition re_compile_closed :: "string \<Rightarrow> string option" where
  "re_compile_closed p = (if re_closed Top 0 p then Some p else None)"

section \<open>The Gherkin story generator (user\_histories/tools.py)\<close>



























section \<open>Properties of the persona classification\<close>

lemma code_point_lower_char:
  "code_point (lower_char c) = (if is_capital c then code_point c + 32 else code_point c)"
proof -
  have "(of_char c :: nat) < 256" by simp
  then show ?thesis
    by (simp add: lower_char_def is_capital_def code_point_def Let_def)
qed

lemma lower_char_eq_iff: "lower_char c = lower_char d \<longleftrightarrow> same_letter c d"
proof -
  have "lower_char c = lower_char d \<longleftrightarrow> code_point (lower_char c) = code_point (lower_char d)"
    by (simp add: code_point_def)
  also have "\<dots> \<longleftrightarrow> same_letter c d"
    unfolding code_point_lower_char
    by (auto simp: same_letter_def is_capital_def code_point_def Let_def)
  finally show ?thesis .
qed

lemma starts_with_ci_prefix: "starts_with_ci k t \<longleftrightarrow> prefix (py_lower k) (py_lower t)"
  by (induction k t rule: starts_with_ci.induct)
    (auto simp: py_lower_def lower_char_eq_iff)

lemma contains_ci_sublist: "contains_ci k t \<longleftrightarrow> sublist (py_lower k) (py_lower t)"
proof (induction t)
  case Nil
  then show ?case by (simp add: py_lower_def)
next
  case (Cons c cs)
  have "sublist (py_lower k) (py_lower (c # cs)) \<longleftrightarrow>
      prefix (py_lower k) (py_lower (c # cs)) \<or> sublist (py_lower k) (py_lower cs)"
    by (simp add: py_lower_def sublist_Cons_right)
  with Cons show ?case
    by (simp add: starts_with_ci_prefix del: starts_with_ci.simps)
qed

lemma sublist_map_lower:
  "sublist k t \<Longrightarrow> sublist (py_lower k) (py_lower t)"
  unfolding py_lower_def sublist_def by (metis map_append)

lemma py_in_keyword:
  "py_lower k = k \<Longrightarrow> py_in k (py_lower t) = contains_ci k t"
  by (simp add: py_in_def contains_ci_sublist)

lemma keywords_lower:
  "py_lower ''admin'' = ''admin''" "py_lower ''administrador'' = ''administrador''"
  "py_lower ''moderador'' = ''moderador''" "py_lower ''operador'' = ''operador''"
  "py_lower ''jogador'' = ''jogador''" "py_lower ''player'' = ''player''"
  "py_lower ''sistema'' = ''sistema''" "py_lower ''api'' = ''api''"
  "py_lower [CHR ''s'', CHR ''e'', CHR ''r'', CHR ''v'', CHR ''i'', CHR 0xE7, CHR ''o''] =
     [CHR ''s'', CHR ''e'', CHR ''r'', CHR ''v'', CHR ''i'', CHR 0xE7, CHR ''o'']"
  "py_lower ''servico'' = ''servico''"
  "py_lower [CHR ''u'', CHR ''s'', CHR ''u'', CHR 0xE1, CHR ''r'', CHR ''i'', CHR ''o''] =
     [CHR ''u'', CHR ''s'', CHR ''u'', CHR 0xE1, CHR ''r'', CHR ''i'', CHR ''o'']"
  "py_lower ''usuario'' = ''usuario''" "py_lower ''user'' = ''user''"
  by (simp_all add: py_lower_def lower_char_def code_point_def Let_def)

lemma detect_persona_groups: "detect_persona t = first_matching_group t"
  by (simp add: detect_persona_def first_matching_group_def persona_groups_def Let_def
      py_in_keyword keywords_lower del: contains_ci.simps)

text \<open>
  Claim C5. The persona of a rule text is that of the first of the four ordered groups
  (Administrator, Player, System, User) having a keyword contained in the text without
  regard to case, and User when no group matches; a text containing
  \<open>administrador\<close>, in any mix of capital and small letters, is classified
  \<open>Administrador\<close> whatever else it contains.
\<close>

theorem persona_first_matching_group:
  "detect_persona t = first_matching_group t \<and>
   (contains_ci ''administrador'' t \<longrightarrow> detect_persona t = ''Administrador'') \<and>
   (sublist ''administrador'' t \<longrightarrow> detect_persona t = ''Administrador'')"
proof -
  have ci: "detect_persona t = ''Administrador''" if "contains_ci ''administrador'' t"
    using that
    by (simp add: detect_persona_def Let_def py_in_keyword keywords_lower del: contains_ci.simps)
  have "contains_ci ''administrador'' t" if "sublist ''administrador'' t"
    using sublist_map_lower [OF that] by (simp add: contains_ci_sublist keywords_lower)
  with ci detect_persona_groups show ?thesis by blast
qed

lemma persona_examples:
  "contains_ci ''administrador'' ''O ADMINISTRADOR do Sistema aprova o Jogador''"
  "sublist ''administrador'' ''o administrador do sistema aprova o jogador''"
  "first_matching_group ''O ADMINISTRADOR do Sistema aprova o Jogador'' = ''Administrador''"
  "first_matching_group ''O Jogador chama a API'' = ''Jogador''"
  "first_matching_group (''O SERVI'' @ [CHR 0xC7] @ ''O envia o e-mail'') = ''Sistema''"
  "first_matching_group ''Password must be 8+ characters'' =
     [CHR ''U'', CHR ''s'', CHR ''u'', CHR 0xE1, CHR ''r'', CHR ''i'', CHR ''o'']"
  by code_simp+

theorem persona_first_matching_group_witness:
  "contains_ci ''administrador'' ''O ADMINISTRADOR do Sistema aprova o Jogador'' \<and>
   detect_persona ''O ADMINISTRADOR do Sistema aprova o Jogador'' = ''Administrador'' \<and>
   sublist ''administrador'' ''o administrador do sistema aprova o jogador'' \<and>
   detect_persona ''o administrador do sistema aprova o jogador'' = ''Administrador'' \<and>
   detect_persona ''O Jogador chama a API'' = ''Jogador'' \<and>
   detect_persona (''O SERVI'' @ [CHR 0xC7] @ ''O envia o e-mail'') = ''Sistema'' \<and>
   detect_persona ''Password must be 8+ characters'' =
     [CHR ''U'', CHR ''s'', CHR ''u'', CHR 0xE1, CHR ''r'', CHR ''i'', CHR ''o'']"
  using persona_examples
    persona_first_matching_group [of "''O ADMINISTRADOR do Sistema aprova o Jogador''"]
    persona_first_matching_group [of "''o administrador do sistema aprova o jogador''"]
    persona_first_matching_group [of "''O Jogador chama a API''"]
    persona_first_matching_group [of "''O SERVI'' @ [CHR 0xC7] @ ''O envia o e-mail''"]
    persona_first_matching_group [of "''Password must be 8+ characters''"]
  by metis

lemma scan_patterns_take:
  "n < m \<Longrightarrow> scan_patterns fi ev m line cs (found, n) =
     (found @ take (nat (m - n)) (concat (map (\<lambda>creg. if re_search fi creg line then [ev] else []) cs)),
      n + int (length (take (nat (m - n)) (concat (map (\<lambda>creg. if re_search fi creg line then [ev] else []) cs)))))"
proof (induction cs arbitrary: found n)
  case Nil
  then show ?case by simp
next
  case (Cons creg cs)
  show ?case
  proof (cases "re_search fi creg line")
    case False
    with Cons show ?thesis by simp
  next
    case True
    show ?thesis
    proof (cases "n + 1 \<ge> m")
      case True
      with Cons.prems have "nat (m - n) = 1" by simp
      with True \<open>re_search fi creg line\<close> show ?thesis by simp
    next
      case False
      then have lt: "n + 1 < m" by simp
      then have "nat (m - n) = Suc (nat (m - (n + 1)))" by simp
      with False \<open>re_search fi creg line\<close> Cons.IH [OF lt] show ?thesis by simp
    qed
  qed
qed

lemma scan_patterns_nonpos:
  "m \<le> n \<Longrightarrow> 0 \<le> n \<Longrightarrow> scan_patterns fi ev m line cs (found, n) =
     (found @ take 1 (concat (map (\<lambda>creg. if re_search fi creg line then [ev] else []) cs)),
      n + int (length (take 1 (concat (map (\<lambda>creg. if re_search fi creg line then [ev] else []) cs)))))"
  by (induction cs arbitrary: found n) auto

lemma scan_lines_take:
  "n < m \<Longrightarrow> scan_lines fi mk m compiled ls (found, n) =
     (found @ take (nat (m - n)) (concat (map (line_hits fi mk compiled) ls)),
      n + int (length (take (nat (m - n)) (concat (map (line_hits fi mk compiled) ls)))))"
proof (induction ls arbitrary: found n)
  case Nil
  then show ?case by simp
next
  case (Cons p ls)
  obtain idx line where p: "p = (idx, line)" by (cases p)
  let ?h = "line_hits fi mk compiled (idx, line)"
  let ?k = "nat (m - n)"
  have sp: "scan_patterns fi (mk idx) m line compiled (found, n) =
      (found @ take ?k ?h, n + int (length (take ?k ?h)))"
    using scan_patterns_take [OF Cons.prems] by (simp add: line_hits_def)
  show ?case
  proof (cases "length ?h < ?k")
    case True
    then have lt: "n + int (length ?h) < m" by linarith
    have "nat (m - (n + int (length ?h))) = ?k - length ?h" by linarith
    with True lt Cons.IH [OF lt, of "found @ ?h"] sp p show ?thesis
      by (simp add: Let_def)
  next
    case False
    then have "n + int (length (take ?k ?h)) \<ge> m" using Cons.prems by simp
    with False sp p show ?thesis by (simp add: Let_def)
  qed
qed

lemma scan_file_take:
  "1 \<le> m \<Longrightarrow> scan_file fi abs_path lines compiled m c =
     take (nat m) (concat (map (line_hits fi (make_evidence abs_path lines c) compiled)
                              (enumerate_from 1 lines)))"
  using scan_lines_take [of 0 m fi _ compiled _ "[]"] by (simp add: scan_file_def)

lemma scan_file_nonpos:
  "m \<le> 0 \<Longrightarrow> scan_file fi abs_path lines compiled m c =
     take 1 (concat (map (line_hits fi (make_evidence abs_path lines c) compiled)
                            (take 1 (enumerate_from 1 lines))))"
proof (cases lines)
  case Nil
  then show ?thesis by (simp add: scan_file_def)
next
  case (Cons l ls)
  assume "m \<le> 0"
  with Cons scan_patterns_nonpos [of m 0 fi _ l compiled "[]"] show ?thesis
    by (simp add: scan_file_def line_hits_def Let_def)
qed

lemma fold_append_each: "fold (\<lambda>m acc. acc @ [f m]) ms acc = acc @ map f ms"
  by (induction ms arbitrary: acc) auto

lemma fold_table:
  "fold (\<lambda>(key, regex) acc. fold (\<lambda>m acc'. acc' @ [g key regex m]) (h regex) acc) table acc =
   acc @ concat (map (\<lambda>(key, regex). map (g key regex) (h regex)) table)"
  by (induction table arbitrary: acc) (auto simp: fold_append_each)

lemma endpoint_scan_lines_eq:
  "endpoint_scan_lines fi abs_path table ls found =
   found @ concat (map (\<lambda>(idx, line).
       concat (map (\<lambda>(key, regex). map (endpoint_record abs_path key idx line) (fi regex line)) table)) ls)"
proof (induction ls arbitrary: found)
  case Nil
  then show ?case by simp
next
  case (Cons p ls)
  obtain idx line where p: "p = (idx, line)" by (cases p)
  show ?case
    unfolding p endpoint_scan_lines.simps Cons.IH
    using fold_table [of "\<lambda>key regex. endpoint_record abs_path key idx line" "\<lambda>regex. fi regex line" table found]
    by simp
qed

lemma enumerate_from_set:
  "(i, l) \<in> set (enumerate_from k xs) \<Longrightarrow> k \<le> i \<and> i < k + int (length xs) \<and> l = xs ! nat (i - k)"
proof (induction xs arbitrary: k)
  case Nil
  then show ?case by simp
next
  case (Cons x xs)
  show ?case
  proof (cases "i = k")
    case True
    with Cons.prems Cons.IH [of "k + 1"] show ?thesis by auto
  next
    case False
    with Cons.prems have "(i, l) \<in> set (enumerate_from (k + 1) xs)" by simp
    from Cons.IH [OF this] have "k + 1 \<le> i" "i < k + 1 + int (length xs)" "l = xs ! nat (i - (k + 1))"
      by simp_all
    moreover from \<open>k + 1 \<le> i\<close> have "nat (i - k) = Suc (nat (i - (k + 1)))" by simp
    ultimately show ?thesis by simp
  qed
qed

lemma scan_file_subset:
  "set (scan_file fi abs_path lines compiled m c) \<subseteq>
   set (concat (map (line_hits fi (make_evidence abs_path lines c) compiled) (enumerate_from 1 lines)))"
proof (cases "1 \<le> m")
  case True
  then show ?thesis
    using set_take_subset by (simp only: scan_file_take) 
next
  case False
  then have m: "m \<le> 0" by simp
  let ?f = "line_hits fi (make_evidence abs_path lines c) compiled"
  have "set (take 1 (concat (map ?f (take 1 (enumerate_from 1 lines))))) \<subseteq>
      set (concat (map ?f (take 1 (enumerate_from 1 lines))))"
    by (rule set_take_subset)
  also have "\<dots> \<subseteq> set (concat (map ?f (enumerate_from 1 lines)))"
    using set_take_subset [of 1 "enumerate_from 1 lines"] by auto
  finally show ?thesis by (simp only: scan_file_nonpos [OF m])
qed

lemma scan_file_member:
  assumes "ev \<in> set (scan_file fi abs_path lines compiled m c)"
  shows "\<exists>i. 1 \<le> i \<and> i \<le> int (length lines) \<and>
           (\<exists>creg \<in> set compiled. re_search fi creg (lines ! nat (i - 1))) \<and>
           ev = make_evidence abs_path lines c i"
proof -
  from assms scan_file_subset
  have "ev \<in> set (concat (map (line_hits fi (make_evidence abs_path lines c) compiled) (enumerate_from 1 lines)))"
    by blast
  then obtain i l where il: "(i, l) \<in> set (enumerate_from 1 lines)"
    and ev: "ev \<in> set (line_hits fi (make_evidence abs_path lines c) compiled (i, l))"
    by auto
  from enumerate_from_set [OF il] have b: "1 \<le> i" "i \<le> int (length lines)" "l = lines ! nat (i - 1)"
    by simp_all
  from ev have "(\<exists>creg \<in> set compiled. re_search fi creg l) \<and> ev = make_evidence abs_path lines c i"
    by (auto simp: line_hits_def split: if_splits)
  with b show ?thesis by blast
qed

lemma py_slice_range:
  "0 \<le> a \<Longrightarrow> 0 \<le> b \<Longrightarrow> py_slice xs a b = drop (nat a) (take (nat b) xs)"
  by (simp add: py_slice_def slice_bound_def min_def)

lemma make_evidence_fields:
  assumes "0 \<le> c" "1 \<le> i" "i \<le> int (length lines)"
  shows "line_start (make_evidence abs_path lines c i) = max 1 (i - c)"
    and "line_end (make_evidence abs_path lines c i) = min (int (length lines)) (i + c)"
    and "1 \<le> line_start (make_evidence abs_path lines c i)"
    and "line_end (make_evidence abs_path lines c i) \<le> int (length lines)"
    and "line_start (make_evidence abs_path lines c i) \<le> line_end (make_evidence abs_path lines c i)"
    and "code_snippet (make_evidence abs_path lines c i) =
          py_strip (concat (drop (nat (max 1 (i - c) - 1)) (take (nat (min (int (length lines)) (i + c))) lines)))"
    and "path (make_evidence abs_path lines c i) = abs_path"
  using assms by (simp_all add: make_evidence_def Let_def py_slice_range)

text \<open>
  Claim C7, amended. With \<open>0 \<le> context_lines\<close>, every record the generic scanner
  emits for a file comes from a line \<open>i\<close> between 1 and the number of lines that
  some pattern matches, has \<open>line_start = max(1, i - c)\<close> and
  \<open>line_end = min(total, i + c)\<close>, so \<open>1 \<le> line_start \<le> line_end \<le> total\<close>, and its
  snippet is the lines \<open>line_start\<close> to \<open>line_end\<close> joined and then stripped of
  the white space at both ends.
\<close>

theorem context_bounds:
  assumes "0 \<le> c" and "ev \<in> set (scan_file fi abs_path lines compiled m c)"
  shows "\<exists>i. 1 \<le> i \<and> i \<le> int (length lines) \<and>
           (\<exists>creg \<in> set compiled. re_search fi creg (lines ! nat (i - 1))) \<and>
           line_start ev = max 1 (i - c) \<and>
           line_end ev = min (int (length lines)) (i + c) \<and>
           1 \<le> line_start ev \<and> line_end ev \<le> int (length lines) \<and>
           line_start ev \<le> line_end ev \<and>
           code_snippet ev =
             py_strip (concat (drop (nat (line_start ev - 1)) (take (nat (line_end ev)) lines)))"
proof -
  from scan_file_member [OF assms(2)] obtain i where i: "1 \<le> i" "i \<le> int (length lines)"
    and hit: "\<exists>creg \<in> set compiled. re_search fi creg (lines ! nat (i - 1))"
    and ev: "ev = make_evidence abs_path lines c i"
    by blast
  note f = make_evidence_fields [OF assms(1) i, of abs_path]
  show ?thesis
    apply (rule exI [of _ i])
    unfolding ev using i hit f by simp
qed

lemma scan_example:
  "scan_file literal_finditer ''/repo/a.py''
     [''a'' @ [CHR 0x0A], ''  x = 1'' @ [CHR 0x0A], ''b'' @ [CHR 0x0A]] [''x''] 5 1 =
   [\<lparr>path = ''/repo/a.py'', line_start = 1, line_end = 3,
     code_snippet = ''a'' @ [CHR 0x0A] @ ''  x = 1'' @ [CHR 0x0A] @ ''b''\<rparr>]"
  by (simp add: scan_file_def literal_finditer_def re_search_def make_evidence_def py_slice_def
      slice_bound_def py_strip_def is_space_def code_point_def Let_def)

theorem context_bounds_witness:
  "(0::int) \<le> 1 \<and>
   \<lparr>path = ''/repo/a.py'', line_start = 1, line_end = 3,
     code_snippet = ''a'' @ [CHR 0x0A] @ ''  x = 1'' @ [CHR 0x0A] @ ''b''\<rparr>
     \<in> set (scan_file literal_finditer ''/repo/a.py''
         [''a'' @ [CHR 0x0A], ''  x = 1'' @ [CHR 0x0A], ''b'' @ [CHR 0x0A]] [''x''] 5 1) \<and>
   (\<exists>i. 1 \<le> i \<and> i \<le> 3 \<and> (1::int) = max 1 (i - 1) \<and> (3::int) = min 3 (i + 1))"
proof -
  let ?ev = "\<lparr>path = ''/repo/a.py'', line_start = 1, line_end = 3,
     code_snippet = ''a'' @ [CHR 0x0A] @ ''  x = 1'' @ [CHR 0x0A] @ ''b''\<rparr>"
  let ?lines = "[''a'' @ [CHR 0x0A], ''  x = 1'' @ [CHR 0x0A], ''b'' @ [CHR 0x0A]]"
  have c: "(0::int) \<le> 1" by simp
  have m: "?ev \<in> set (scan_file literal_finditer ''/repo/a.py'' ?lines [''x''] 5 1)"
    by (simp only: scan_example) simp
  from context_bounds [OF c m] obtain i where "1 \<le> i" "i \<le> int (length ?lines)"
    "line_start ?ev = max 1 (i - 1)" "line_end ?ev = min (int (length ?lines)) (i + 1)"
    by blast
  then have "\<exists>i. 1 \<le> i \<and> i \<le> 3 \<and> (1::int) = max 1 (i - 1) \<and> (3::int) = min 3 (i + 1)"
    by (intro exI [of _ i]) simp
  with c m show ?thesis by blast
qed

text \<open>
  Claim C7 as stated fails on the snippet: for the one-line file \<open>x\<close> followed by a
  line feed, the record's snippet is \<open>x\<close>, not the joined line with its line feed.
\<close>

theorem snippet_is_stripped_counterexample:
  "scan_file literal_finditer ''/repo/a.py'' [''x'' @ [CHR 0x0A]] [''x''] 5 0 =
     [\<lparr>path = ''/repo/a.py'', line_start = 1, line_end = 1, code_snippet = ''x''\<rparr>] \<and>
   concat (py_slice [''x'' @ [CHR 0x0A]] (1 - 1) 1) = ''x'' @ [CHR 0x0A] \<and>
   ''x'' \<noteq> ''x'' @ [CHR 0x0A]"
  by (simp add: scan_file_def literal_finditer_def re_search_def make_evidence_def py_slice_def
      slice_bound_def py_strip_def is_space_def code_point_def Let_def)

section \<open>The per-file cap and the records of a line\<close>

lemma scan_file_length_le:
  "1 \<le> m \<Longrightarrow> int (length (scan_file fi abs_path lines compiled m c)) \<le> m"
  by (simp add: scan_file_take)

text \<open>
  Claim C3 at \<open>max_matches_per_file = 0\<close>: the cap is tested after the append, so a
  file whose first line matches still contributes one record.
\<close>

theorem match_cap_zero_emits_one:
  "scan_file literal_finditer ''/repo/a.py'' [''x = 1''] [''x''] 0 2 =
     [\<lparr>path = ''/repo/a.py'', line_start = 1, line_end = 1, code_snippet = ''x = 1''\<rparr>]"
  by (simp add: scan_file_def literal_finditer_def re_search_def make_evidence_def py_slice_def
      slice_bound_def py_strip_def is_space_def code_point_def Let_def)

lemma scan_file_single:
  "length (scan_file fi abs_path [line] [creg] m c) = (if fi creg line = [] then 0 else 1)"
proof (cases "1 \<le> m")
  case True
  then have "nat m \<noteq> 0" by simp
  then obtain k where "nat m = Suc k" using not0_implies_Suc by blast
  with True show ?thesis
    by (simp add: scan_file_take line_hits_def re_search_def)
next
  case False
  then have "m \<le> 0" by simp
  then show ?thesis
    by (simp add: scan_file_nonpos line_hits_def re_search_def)
qed

lemma scan_file_prefix:
  "\<exists>k. scan_file fi abs_path lines compiled m c =
     take k (concat (map (line_hits fi (make_evidence abs_path lines c) compiled)
                        (enumerate_from 1 lines)))"
proof (cases "1 \<le> m")
  case True
  then show ?thesis using scan_file_take by blast
next
  case False
  then have m: "m \<le> 0" by simp
  let ?f = "line_hits fi (make_evidence abs_path lines c) compiled"
  show ?thesis
  proof (cases lines)
    case Nil
    with m show ?thesis by (simp add: scan_file_nonpos)
  next
    case (Cons l ls)
    have "take 1 (?f (1, l)) = take (min 1 (length (?f (1, l)))) (?f (1, l) @ concat (map ?f (enumerate_from 2 ls)))"
      by (cases "?f (1, l)") simp_all
    with m Cons show ?thesis
      by (simp only: scan_file_nonpos) (auto simp del: take_append)
  qed
qed

text \<open>
  Claim C10. The records of a file in the generic scanner are a prefix of the list
  holding, line after line and pattern after pattern, one record for each pair of a
  line and a pattern that matches it, however many matches the line holds: one line
  and one pattern give one record or none. The endpoint scanner emits a record for each
  match of \<open>finditer\<close> in the line.
\<close>

theorem one_record_per_line_and_pattern:
  "(\<exists>k. scan_file fi abs_path lines compiled m c =
      take k (concat (map (\<lambda>(idx, line).
                concat (map (\<lambda>creg. if re_search fi creg line
                                      then [make_evidence abs_path lines c idx] else []) compiled))
            (enumerate_from 1 lines)))) \<and>
   length (scan_file fi abs_path [line] [creg] m c) = (if fi creg line = [] then 0 else 1) \<and>
   endpoint_scan_file fi abs_path table lines =
     concat (map (\<lambda>(idx, line).
       concat (map (\<lambda>(key, regex). map (endpoint_record abs_path key idx line) (fi regex line)) table))
       (enumerate_from 1 lines)) \<and>
   length (endpoint_scan_file fi abs_path [(key, creg)] [line]) = length (fi creg line)"
proof -
  have "line_hits fi (make_evidence abs_path lines c) compiled =
      (\<lambda>(idx, line). concat (map (\<lambda>creg. if re_search fi creg line
                                      then [make_evidence abs_path lines c idx] else []) compiled))"
    by (simp add: line_hits_def)
  with scan_file_prefix [of fi abs_path lines compiled m c]
  have a: "\<exists>k. scan_file fi abs_path lines compiled m c =
      take k (concat (map (\<lambda>(idx, line).
                concat (map (\<lambda>creg. if re_search fi creg line
                                      then [make_evidence abs_path lines c idx] else []) compiled))
            (enumerate_from 1 lines)))"
    by simp
  have b: "endpoint_scan_file fi abs_path table lines =
     concat (map (\<lambda>(idx, line).
       concat (map (\<lambda>(key, regex). map (endpoint_record abs_path key idx line) (fi regex line)) table))
       (enumerate_from 1 lines))"
    by (simp add: endpoint_scan_file_def endpoint_scan_lines_eq)
  have d: "length (endpoint_scan_file fi abs_path [(key, creg)] [line]) = length (fi creg line)"
    by (simp add: endpoint_scan_file_def endpoint_scan_lines_eq)
  from a b d scan_file_single [of fi abs_path line creg m c] show ?thesis by blast
qed

theorem one_record_per_line_and_pattern_witness:
  "length (literal_finditer ''x'' ''x + x'') = 2 \<and>
   length (scan_file literal_finditer ''/repo/a.js'' [''x + x''] [''x''] 5 2) = 1 \<and>
   length (endpoint_scan_file literal_finditer ''/repo/a.js'' [(''http_url'', ''x'')] [''x + x'']) = 2"
proof -
  have n: "length (literal_finditer ''x'' ''x + x'') = 2"
    by (simp add: literal_finditer_def)
  then have "literal_finditer ''x'' ''x + x'' \<noteq> []" by auto
  with n one_record_per_line_and_pattern
    [of literal_finditer "''/repo/a.js''" "[''x + x'']" "[''x'']" 5 2 "''x + x''" "''x''"
      "[(''http_url'', ''x'')]" "''http_url''"]
  show ?thesis by simp
qed

lemma py_strip_both_ends:
  "py_strip ('' '' @ [CHR 0x09] @ ''return x '' @ [CHR 0x0A]) = ''return x''"
  by code_simp

section \<open>The cap on the number of files opened\<close>

lemma scan_filenames_beyond:
  "file_count st > max_files args \<Longrightarrow>
   results (scan_filenames fm fi args incl excl compiled rel_dir fnames st) = results st \<and>
   opened (scan_filenames fm fi args incl excl compiled rel_dir fnames st) = opened st \<and>
   file_count (scan_filenames fm fi args incl excl compiled rel_dir fnames st) > max_files args"
proof (induction fnames arbitrary: st)
  case Nil
  then show ?case by simp
next
  case (Cons p fnames)
  obtain f content where p: "p = (f, content)" by (cases p)
  from Cons show ?case unfolding p by (simp add: Let_def)
qed

lemma scan_dirs_beyond:
  "file_count st > max_files args \<Longrightarrow>
   results (scan_dirs fm fi args incl excl compiled ds st) = results st \<and>
   opened (scan_dirs fm fi args incl excl compiled ds st) = opened st"
proof (cases ds)
  case Nil
  then show ?thesis by simp
next
  case (Cons p rest)
  assume b: "file_count st > max_files args"
  obtain rel_dir fnames where p: "p = (rel_dir, fnames)" by (cases p)
  from scan_filenames_beyond [OF b, of fm fi incl excl compiled rel_dir fnames] Cons show ?thesis
    unfolding p by (simp add: Let_def)
qed

lemma scan_filenames_within:
  "file_count st \<le> max_files args \<Longrightarrow>
   scan_filenames fm fi args incl excl compiled rel_dir fnames st =
     \<lparr>file_count =
        (if length (dir_candidates fm (repo_root args) incl excl (rel_dir, fnames))
              \<le> nat (max_files args - file_count st)
         then file_count st + int (length (dir_candidates fm (repo_root args) incl excl (rel_dir, fnames)))
         else max_files args + 1),
      results = results st @
        concat (map (file_records fi compiled (max_matches_per_file args) (context_lines args))
          (take (nat (max_files args - file_count st))
             (dir_candidates fm (repo_root args) incl excl (rel_dir, fnames)))),
      opened = opened st @
        map fst (take (nat (max_files args - file_count st))
             (dir_candidates fm (repo_root args) incl excl (rel_dir, fnames)))\<rparr>"
proof (induction fnames arbitrary: st)
  case Nil
  then show ?case by (simp add: dir_candidates_def)
next
  case (Cons p fnames)
  obtain f content where p: "p = (f, content)" by (cases p)
  let ?rel = "replace_backslash (child_path rel_dir f)"
  let ?k = "max_files args"
  show ?case
  proof (cases "file_selected fm incl excl ?rel")
    case False
    then have c: "dir_candidates fm (repo_root args) incl excl (rel_dir, (f, content) # fnames) =
        dir_candidates fm (repo_root args) incl excl (rel_dir, fnames)"
      by (simp add: dir_candidates_def)
    from False have "scan_filenames fm fi args incl excl compiled rel_dir (p # fnames) st =
        scan_filenames fm fi args incl excl compiled rel_dir fnames st"
      unfolding p by (auto simp: file_selected_def Let_def)
    with Cons c show ?thesis unfolding p by simp
  next
    case True
    then have c: "dir_candidates fm (repo_root args) incl excl (rel_dir, (f, content) # fnames) =
        (abs_path_of (repo_root args) ?rel, content) #
        dir_candidates fm (repo_root args) incl excl (rel_dir, fnames)"
      by (simp add: dir_candidates_def)
    show ?thesis
    proof (cases "file_count st + 1 > ?k")
      case over: True
      with Cons.prems have z: "nat (?k - file_count st) = 0" and eq: "file_count st = ?k"
        by simp_all
      have "scan_filenames fm fi args incl excl compiled rel_dir ((f, content) # fnames) st =
          st\<lparr>file_count := ?k + 1\<rparr>"
        using over True eq by (auto simp: file_selected_def Let_def)
      also have "\<dots> = \<lparr>file_count = ?k + 1, results = results st, opened = opened st\<rparr>"
        by simp
      finally show ?thesis
        unfolding p c z by simp
    next
      case under: False
      then have le: "file_count st + 1 \<le> ?k" by simp
      then have r: "nat (?k - file_count st) = Suc (nat (?k - (file_count st + 1)))" by simp
      let ?st2 = "st\<lparr>file_count := file_count st + 1, opened := opened st @ [abs_path_of (repo_root args) ?rel]\<rparr>"
      show ?thesis
      proof (cases content)
        case None
        have "scan_filenames fm fi args incl excl compiled rel_dir (p # fnames) st =
            scan_filenames fm fi args incl excl compiled rel_dir fnames ?st2"
          using True under None unfolding p by (auto simp: file_selected_def Let_def)
        also have "\<dots> = \<lparr>file_count =
              (if length (dir_candidates fm (repo_root args) incl excl (rel_dir, fnames))
                    \<le> nat (?k - (file_count st + 1))
               then file_count st + 1 + int (length (dir_candidates fm (repo_root args) incl excl (rel_dir, fnames)))
               else ?k + 1),
            results = results st @
              concat (map (file_records fi compiled (max_matches_per_file args) (context_lines args))
                (take (nat (?k - (file_count st + 1)))
                   (dir_candidates fm (repo_root args) incl excl (rel_dir, fnames)))),
            opened = (opened st @ [abs_path_of (repo_root args) ?rel]) @
              map fst (take (nat (?k - (file_count st + 1)))
                   (dir_candidates fm (repo_root args) incl excl (rel_dir, fnames)))\<rparr>"
          using Cons.IH [of ?st2] le by simp
        finally show ?thesis
          unfolding p c r using None by (simp add: file_records_def)
      next
        case (Some lines)
        let ?st3 = "?st2\<lparr>results := results st @ scan_file fi (abs_path_of (repo_root args) ?rel) lines compiled
            (max_matches_per_file args) (context_lines args)\<rparr>"
        have "scan_filenames fm fi args incl excl compiled rel_dir (p # fnames) st =
            scan_filenames fm fi args incl excl compiled rel_dir fnames ?st3"
          using True under Some unfolding p by (auto simp: file_selected_def Let_def)
        also have "\<dots> = \<lparr>file_count =
              (if length (dir_candidates fm (repo_root args) incl excl (rel_dir, fnames))
                    \<le> nat (?k - (file_count st + 1))
               then file_count st + 1 + int (length (dir_candidates fm (repo_root args) incl excl (rel_dir, fnames)))
               else ?k + 1),
            results = (results st @ scan_file fi (abs_path_of (repo_root args) ?rel) lines compiled
                (max_matches_per_file args) (context_lines args)) @
              concat (map (file_records fi compiled (max_matches_per_file args) (context_lines args))
                (take (nat (?k - (file_count st + 1)))
                   (dir_candidates fm (repo_root args) incl excl (rel_dir, fnames)))),
            opened = (opened st @ [abs_path_of (repo_root args) ?rel]) @
              map fst (take (nat (?k - (file_count st + 1)))
                   (dir_candidates fm (repo_root args) incl excl (rel_dir, fnames)))\<rparr>"
          using Cons.IH [of ?st3] le by simp
        finally show ?thesis
          unfolding p c r using Some by (simp add: file_records_def)
      qed
    qed
  qed
qed

lemma scan_dirs_within:
  "file_count st \<le> max_files args \<Longrightarrow>
   results (scan_dirs fm fi args incl excl compiled ds st) =
     results st @
       concat (map (file_records fi compiled (max_matches_per_file args) (context_lines args))
         (take (nat (max_files args - file_count st))
            (concat (map (dir_candidates fm (repo_root args) incl excl) ds)))) \<and>
   opened (scan_dirs fm fi args incl excl compiled ds st) =
     opened st @
       map fst (take (nat (max_files args - file_count st))
            (concat (map (dir_candidates fm (repo_root args) incl excl) ds)))"
proof (induction ds arbitrary: st)
  case Nil
  then show ?case by simp
next
  case (Cons p ds)
  obtain rel_dir fnames where p: "p = (rel_dir, fnames)" by (cases p)
  let ?k = "max_files args"
  let ?cs = "dir_candidates fm (repo_root args) incl excl (rel_dir, fnames)"
  let ?r = "nat (?k - file_count st)"
  let ?st' = "scan_filenames fm fi args incl excl compiled rel_dir fnames st"
  note w = scan_filenames_within [OF Cons.prems, of fm fi incl excl compiled rel_dir fnames]
  show ?case
  proof (cases "length ?cs \<le> ?r")
    case True
    with w have fc: "file_count ?st' = file_count st + int (length ?cs)"
      and rs: "results ?st' = results st @
          concat (map (file_records fi compiled (max_matches_per_file args) (context_lines args)) ?cs)"
      and op: "opened ?st' = opened st @ map fst ?cs"
      by simp_all
    from True Cons.prems have le: "file_count ?st' \<le> ?k" unfolding fc by linarith
    have r': "nat (?k - file_count ?st') = ?r - length ?cs" unfolding fc by linarith
    have e: "scan_dirs fm fi args incl excl compiled (p # ds) st =
        scan_dirs fm fi args incl excl compiled ds ?st'"
      unfolding p using le by (simp add: Let_def)
    from Cons.IH [OF le] True show ?thesis
      unfolding e r' rs op by (simp add: p)
  next
    case False
    with w have fc: "file_count ?st' = ?k + 1"
      and rs: "results ?st' = results st @
          concat (map (file_records fi compiled (max_matches_per_file args) (context_lines args)) (take ?r ?cs))"
      and op: "opened ?st' = opened st @ map fst (take ?r ?cs)"
      by simp_all
    have e: "scan_dirs fm fi args incl excl compiled (p # ds) st = ?st'"
      unfolding p using fc by (simp add: Let_def)
    from False show ?thesis
      unfolding e rs op by (simp add: p)
  qed
qed


lemma run_scan_returns:
  assumes "compile_patterns rc (patterns args) = Inr compiled"
  shows "run_scan rc fi fm tree args =
     Inr (if compiled = [] then \<lparr>file_count = 0, results = [], opened = []\<rparr>
          else scan_dirs fm fi args (or_default (include_globs args) default_include_globs)
                 (or_default (exclude_globs args) default_exclude_globs) compiled
                 (walk_root fm (or_default (exclude_globs args) default_exclude_globs) tree)
                 \<lparr>file_count = 0, results = [], opened = []\<rparr>)"
  using assms by (simp add: run_scan_def Let_def)

lemma scan_dirs_from_start:
  "results (scan_dirs fm fi args incl excl compiled ds \<lparr>file_count = 0, results = [], opened = []\<rparr>) =
     concat (map (file_records fi compiled (max_matches_per_file args) (context_lines args))
       (take (nat (max_files args)) (concat (map (dir_candidates fm (repo_root args) incl excl) ds)))) \<and>
   opened (scan_dirs fm fi args incl excl compiled ds \<lparr>file_count = 0, results = [], opened = []\<rparr>) =
     map fst (take (nat (max_files args)) (concat (map (dir_candidates fm (repo_root args) incl excl) ds)))"
proof (cases "0 \<le> max_files args")
  case True
  then show ?thesis
    using scan_dirs_within [of "\<lparr>file_count = 0, results = [], opened = []\<rparr>" args fm fi incl excl compiled ds]
    by simp
next
  case False
  then show ?thesis
    using scan_dirs_beyond [of args "\<lparr>file_count = 0, results = [], opened = []\<rparr>" fm fi incl excl compiled ds]
    by simp
qed

text \<open>
  Claim C2. When the patterns compile, the run returns its results, and \<open>open\<close> was
  called on at most \<open>max_files\<close> files (none for a negative cap). With at least one
  pattern, the files opened are the first \<open>max_files\<close> of the files passing the
  filters, in the order of the walk, and the results are those of these files: the cap
  truncates the scan and keeps what was found up to it.
\<close>

theorem cap_on_opened_files:
  assumes "compile_patterns rc (patterns args) = Inr compiled"
  shows "\<exists>st. run_scan rc fi fm tree args = Inr st \<and>
     search_repo_patterns rc fi fm tree args = Inr (results st) \<and>
     int (length (opened st)) \<le> max 0 (max_files args) \<and>
     int (card (set (opened st))) \<le> max 0 (max_files args) \<and>
     (compiled \<noteq> [] \<longrightarrow>
        opened st =
          map fst (take (nat (max_files args))
            (candidates fm (repo_root args) (or_default (include_globs args) default_include_globs)
               (or_default (exclude_globs args) default_exclude_globs) tree)) \<and>
        results st =
          concat (map (file_records fi compiled (max_matches_per_file args) (context_lines args))
            (take (nat (max_files args))
              (candidates fm (repo_root args) (or_default (include_globs args) default_include_globs)
                 (or_default (exclude_globs args) default_exclude_globs) tree))))"
proof -
  let ?incl = "or_default (include_globs args) default_include_globs"
  let ?excl = "or_default (exclude_globs args) default_exclude_globs"
  let ?init = "\<lparr>file_count = 0, results = [], opened = []\<rparr>"
  let ?st = "if compiled = [] then ?init
             else scan_dirs fm fi args ?incl ?excl compiled (walk_root fm ?excl tree) ?init"
  note r = run_scan_returns [OF assms, of fi fm tree]
  note s = scan_dirs_from_start [of fm fi args ?incl ?excl compiled "walk_root fm ?excl tree"]
  have len: "int (length (opened ?st)) \<le> max 0 (max_files args)"
    using s by (cases "compiled = []") auto
  have "card (set (opened ?st)) \<le> length (opened ?st)"
    by (rule card_length)
  with len have crd: "int (card (set (opened ?st))) \<le> max 0 (max_files args)"
    by linarith
  have ex: "compiled \<noteq> [] \<longrightarrow>
        opened ?st = map fst (take (nat (max_files args)) (candidates fm (repo_root args) ?incl ?excl tree)) \<and>
        results ?st = concat (map (file_records fi compiled (max_matches_per_file args) (context_lines args))
            (take (nat (max_files args)) (candidates fm (repo_root args) ?incl ?excl tree)))"
    using s by (simp add: candidates_def)
  have "search_repo_patterns rc fi fm tree args = Inr (results ?st)"
    by (simp only: search_repo_patterns_def r sum.case)
  with r len crd ex show ?thesis by blast
qed

lemma cap_example:
  "candidates fnmatch ''/repo'' default_include_globs default_exclude_globs
     (Some (Dir [(''src'', Dir [] [(''a.py'', Some [''x'']), (''b.py'', Some [''y'']), (''c.py'', Some [''x''])])] [])) =
   [(''/repo/src/a.py'', Some [''x'']), (''/repo/src/b.py'', Some [''y'']), (''/repo/src/c.py'', Some [''x''])]"
  by code_simp

theorem cap_on_opened_files_witness:
  "compile_patterns Some [''x''] = Inr [''x''] \<and>
   (\<exists>st. run_scan Some literal_finditer fnmatch
       (Some (Dir [(''src'', Dir [] [(''a.py'', Some [''x'']), (''b.py'', Some [''y'']), (''c.py'', Some [''x''])])] []))
       \<lparr>repo_root = ''/repo'', patterns = [''x''], include_globs = None, exclude_globs = None,
        max_matches_per_file = 5, context_lines = 2, max_files = 2\<rparr> = Inr st \<and>
      int (length (opened st)) \<le> 2 \<and>
      opened st = [''/repo/src/a.py'', ''/repo/src/b.py''] \<and>
      results st = [\<lparr>path = ''/repo/src/a.py'', line_start = 1, line_end = 1, code_snippet = ''x''\<rparr>])"
proof -
  let ?args = "\<lparr>repo_root = ''/repo'', patterns = [''x''], include_globs = None, exclude_globs = None,
        max_matches_per_file = 5, context_lines = 2, max_files = 2\<rparr>"
  have c: "compile_patterns Some (patterns ?args) = Inr [''x'']" by simp
  have f: "scan_file literal_finditer ''/repo/src/a.py'' [''x''] [''x''] 5 2 =
      [\<lparr>path = ''/repo/src/a.py'', line_start = 1, line_end = 1, code_snippet = ''x''\<rparr>]"
    "scan_file literal_finditer ''/repo/src/b.py'' [''y''] [''x''] 5 2 = []"
    by (simp_all add: scan_file_def literal_finditer_def re_search_def make_evidence_def py_slice_def
      slice_bound_def py_strip_def is_space_def code_point_def Let_def)
  from cap_on_opened_files [OF c, of literal_finditer fnmatch
      "Some (Dir [(''src'', Dir [] [(''a.py'', Some [''x'']), (''b.py'', Some [''y'']), (''c.py'', Some [''x''])])] [])"]
  obtain st where "run_scan Some literal_finditer fnmatch
       (Some (Dir [(''src'', Dir [] [(''a.py'', Some [''x'']), (''b.py'', Some [''y'']), (''c.py'', Some [''x''])])] []))
       ?args = Inr st"
    "int (length (opened st)) \<le> 2"
    "opened st = [''/repo/src/a.py'', ''/repo/src/b.py'']"
    "results st = [\<lparr>path = ''/repo/src/a.py'', line_start = 1, line_end = 1, code_snippet = ''x''\<rparr>]"
    by (auto simp: or_default_def cap_example file_records_def f)
  then show ?thesis by auto
qed

section \<open>Pruning and the default globs\<close>

lemma walk_dirs_not_pruned:
  "(rd, fs) \<in> set (walk fm excl rel t) \<Longrightarrow>
   \<exists>suffix. rd = rel @ suffix \<and>
     (\<forall>j < length suffix. \<not> dir_pruned fm excl (rel @ take j suffix) (suffix ! j))"
proof (induction fm excl rel t arbitrary: rd fs rule: walk.induct)
  case (1 fm excl rel dirnames fnames)
  from "1.prems" consider "rd = rel" 
    | d sub where "(d, sub) \<in> set dirnames" "\<not> dir_pruned fm excl rel d"
        "(rd, fs) \<in> set (walk fm excl (rel @ [d]) sub)"
    by (auto split: if_splits)
  then show ?case
  proof cases
    case 1
    then show ?thesis by simp
  next
    case 2
    from "1.IH" [OF 2(1) refl 2(2) 2(3)] obtain suffix where s: "rd = (rel @ [d]) @ suffix"
      and np: "\<forall>j < length suffix. \<not> dir_pruned fm excl ((rel @ [d]) @ take j suffix) (suffix ! j)"
      by blast
    have "\<forall>j < length (d # suffix). \<not> dir_pruned fm excl (rel @ take j (d # suffix)) ((d # suffix) ! j)"
    proof (intro allI impI)
      fix j assume j: "j < length (d # suffix)"
      show "\<not> dir_pruned fm excl (rel @ take j (d # suffix)) ((d # suffix) ! j)"
      proof (cases j)
        case 0
        with 2(2) show ?thesis by simp
      next
        case (Suc j')
        with j np show ?thesis by simp
      qed
    qed
    with s show ?thesis by (intro exI [of _ "d # suffix"]) simp
  qed
qed

lemma pruned_dir_not_walked:
  "j < length rd \<Longrightarrow> dir_pruned fm excl (take j rd) (rd ! j) \<Longrightarrow>
   (rd, fs) \<notin> set (walk_root fm excl tree)"
proof
  assume j: "j < length rd" and p: "dir_pruned fm excl (take j rd) (rd ! j)"
    and w: "(rd, fs) \<in> set (walk_root fm excl tree)"
  from w obtain t where "(rd, fs) \<in> set (walk fm excl [] t)"
    by (auto simp: walk_root_def split: option.splits)
  from walk_dirs_not_pruned [OF this] j p show False by auto
qed

text \<open>
  Claim C1 on the default exclude list: \<open>node_modules\<close> directly under the root is
  walked, since \<open>node_modules/\<close> has no separator before the name, as
  \<open>**/node_modules/**\<close> asks under \<open>fnmatch\<close>, and its file is scanned.
\<close>

theorem root_node_modules_is_scanned:
  "fnmatch ''node_modules/'' ''**/node_modules/**'' = False \<and>
   search_repo_patterns Some literal_finditer fnmatch
     (Some (Dir [(''node_modules'', Dir [] [(''index.js'', Some [''x = 1''])])] []))
     \<lparr>repo_root = ''/repo'', patterns = [''x''], include_globs = None, exclude_globs = None,
      max_matches_per_file = 5, context_lines = 2, max_files = 2000\<rparr> =
   Inr [\<lparr>path = ''/repo/node_modules/index.js'', line_start = 1, line_end = 1,
         code_snippet = ''x = 1''\<rparr>]"
  by code_simp

text \<open>
  Claim C9 without include globs: the default \<open>**/*\<close> asks for a separator, so a
  file directly in the root, which no exclude glob matches, is not listed, while a file
  of a subdirectory is.
\<close>

theorem root_file_not_listed:
  "list_ex (fnmatch ''README.md'') [''**/.git/**'', ''**/node_modules/**'', ''**/.venv/**''] = False \<and>
   fnmatch ''README.md'' ''**/*'' = False \<and>
   list_repository_files fnmatch ''/repo''
     (Some (Dir [(''src'', Dir [] [(''app.py'', Some [])])] [(''README.md'', Some [])]))
     None None 5000 = [''/repo/src/app.py'']"
  by code_simp

section \<open>The lenient search tool on a payload that is not JSON\<close>

text \<open>
  Claim C8 on the fallback: when \<open>json.loads\<close> raises on the payload, the
  configuration is the heuristic one, whose fifth pattern ends in an opening
  parenthesis that nothing closes; compiling it raises, and the exception leaves
  \<open>_run\<close>, whatever the payload and the file system.
\<close>

theorem heuristic_fallback_raises:
  "robust_search_repo_patterns re_compile_closed fi fm trees payload None =
     Some (Inl (ReError (''def'' @ [backslash, backslash] @ ''s+'' @ [backslash, backslash] @ ''w+''
        @ [backslash, backslash] @ ''('')))"
proof -
  have c: "compile_patterns re_compile_closed heuristic_patterns =
      Inl (ReError (''def'' @ [backslash, backslash] @ ''s+'' @ [backslash, backslash] @ ''w+''
        @ [backslash, backslash] @ ''(''))"
    by (simp add: heuristic_patterns_def re_compile_closed_def backslash_def)
  have s: "str_list (JArr (map JStr ps)) = Some ps" for ps
    by (simp add: str_list_def list_all_iff comp_def)
  show ?thesis
    by (simp add: robust_search_repo_patterns_def try_parse_def heuristic_extract_def
        args_of_config_def opt_str_list_def int_or_def s search_repo_patterns_def run_scan_def c Let_def)
qed

section \<open>The generator's answers\<close>














end
